theory Spec2Isabelle
  imports Complex_Main
begin

section \<open>The veto event record\<close>

text \<open>
  Modelled from the spec: the class \<^verbatim>\<open>MJVetoEvent\<close> is declared in
  \<^verbatim>\<open>MJVetoEvent.hh\<close>, which is not part of \<^verbatim>\<open>auto-veto.cc\<close>. The record has
  one field per getter that \<^verbatim>\<open>auto-veto.cc\<close> calls, named after the getter. The
  spec's data model gives the types: 18 boolean structural flags, a boolean
  bad-scaler flag, 32 channel amplitudes and thresholds, integer counters and
  indices, and two clock readings in seconds. The fixed-size arrays are read by
  index only, so they are functions of the index. C++ \<^verbatim>\<open>double\<close> values are
  modelled as reals and C++ integers as unbounded integers.
\<close>

record MJVetoEvent =
  GetError :: "nat \<Rightarrow> bool"
  GetBadScaler :: bool
  GetRun :: int
  GetEntry :: int
  GetTimeSec :: real
  GetTimeSBC :: real
  GetSEC :: int
  GetQEC :: int
  GetQEC2 :: int
  GetQDC :: "nat \<Rightarrow> int"
  GetSWThresh :: "nat \<Rightarrow> int"
  GetMultip :: int

section \<open>CheckEventErrors\<close>

text \<open>
  The error vector is a \<^verbatim>\<open>vector<int>\<close> of 29 entries. Assigning a C++
  \<^verbatim>\<open>bool\<close> to an entry stores 0 or 1.
\<close>

text \<open>\<^verbatim>\<open>for (int i=0; i < 18; i++) EventErrors[i] = veto.GetError(i);\<close>\<close>

function copy_errors :: "nat \<Rightarrow> MJVetoEvent \<Rightarrow> int list \<Rightarrow> int list" where
  "copy_errors i veto EventErrors =
     (if i < 18
      then copy_errors (i + 1) veto (EventErrors[i := of_bool (GetError veto i)])
      else EventErrors)"
  by pat_completeness auto
termination
  by (relation "measure (\<lambda>(i, veto, EventErrors). 18 - i)") auto

declare copy_errors.simps [simp del]

text \<open>
  \<^verbatim>\<open>for (int q=0; q<18; q++) if (EventErrors[q]==1 && (q==1||...||q==14)) skip = true;\<close>
  The second conjunct of the loop's condition is \<open>skips_structural q\<close>.
\<close>

definition skips_structural :: "nat \<Rightarrow> bool" where
  "skips_structural q =
     (q = 1 \<or> q = 2 \<or> q = 3 \<or> q = 5 \<or> q = 6 \<or> q = 9 \<or> q = 13 \<or> q = 14)"

function skip_structural :: "nat \<Rightarrow> int list \<Rightarrow> bool \<Rightarrow> bool" where
  "skip_structural q EventErrors skip =
     (if q < 18
      then skip_structural (q + 1) EventErrors
             (if EventErrors ! q = 1 \<and> skips_structural q then True else skip)
      else skip)"
  by pat_completeness auto
termination
  by (relation "measure (\<lambda>(q, EventErrors, skip). 18 - q)") auto

declare skip_structural.simps [simp del]

text \<open>
  \<^verbatim>\<open>for (int q=18; q<26; q++) if (EventErrors[q]==1 && (q==18||...||q==24)) skip = true;\<close>
  The second conjunct of the loop's condition is \<open>skips_synch q\<close>.
\<close>

definition skips_synch :: "nat \<Rightarrow> bool" where
  "skips_synch q =
     (q = 18 \<or> q = 19 \<or> q = 20 \<or> q = 21 \<or> q = 22 \<or> q = 23 \<or> q = 24)"

function skip_synch :: "nat \<Rightarrow> int list \<Rightarrow> bool \<Rightarrow> bool" where
  "skip_synch q EventErrors skip =
     (if q < 26
      then skip_synch (q + 1) EventErrors
             (if EventErrors ! q = 1 \<and> skips_synch q then True else skip)
      else skip)"
  by pat_completeness auto
termination
  by (relation "measure (\<lambda>(q, EventErrors, skip). 26 - q)") auto

declare skip_synch.simps [simp del]

text \<open>\<^verbatim>\<open>if (c) EventErrors[k] = true;\<close>\<close>

definition set_error_if :: "bool \<Rightarrow> nat \<Rightarrow> int list \<Rightarrow> int list" where
  "set_error_if c k EventErrors = (if c then EventErrors[k := 1] else EventErrors)"

text \<open>
  The five-argument overload. \<open>ErrorVec\<close> is the caller's vector, passed by
  reference: the function takes its content on entry and returns its content on
  exit beside the result \<open>skip\<close>. The events and \<open>prevGoodEntry\<close> are passed by
  value.
\<close>

definition CheckEventErrors ::
  "MJVetoEvent \<Rightarrow> MJVetoEvent \<Rightarrow> MJVetoEvent \<Rightarrow> int \<Rightarrow> int list \<Rightarrow> bool \<times> int list" where
  "CheckEventErrors veto prev first prevGoodEntry ErrorVec =
     (let skip = False;
          EventErrors = replicate 29 (0::int);
          EventErrors = copy_errors 0 veto EventErrors;
          skip = skip_structural 0 EventErrors skip;
          EventErrors = set_error_if
            (GetBadScaler veto \<and> (GetRun veto < 8557 \<or> GetTimeSBC veto > 2000000000))
            25 EventErrors;
          entry = GetEntry veto;
          firstGoodEntry = GetEntry first;
          ErrorVec = EventErrors
      in if firstGoodEntry = -1 then (skip, ErrorVec)
         else
           let SBCOffset = GetTimeSBC first - GetTimeSec first;
               timeSBC = GetTimeSBC veto - SBCOffset;
               prevtimeSBC = GetTimeSBC prev - SBCOffset;
               EventErrors = set_error_if
                 (GetTimeSec veto > 0 \<and> timeSBC > 0 \<and> SBCOffset \<noteq> 0
                    \<and> \<not> GetError veto 1 \<and> entry > firstGoodEntry
                    \<and> \<bar>(GetTimeSec veto - GetTimeSec prev) - (timeSBC - prevtimeSBC)\<bar> > 2)
                 18 EventErrors;
               EventErrors = set_error_if
                 (GetSEC veto = 0 \<and> entry \<noteq> 0 \<and> entry > firstGoodEntry)
                 19 EventErrors;
               EventErrors = set_error_if
                 (\<bar>GetSEC veto - GetSEC prev\<bar> > entry - prevGoodEntry
                    \<and> entry > firstGoodEntry \<and> GetSEC veto \<noteq> 0)
                 20 EventErrors;
               EventErrors = set_error_if
                 (GetQEC veto = 0 \<and> entry \<noteq> 0 \<and> entry > firstGoodEntry \<and> \<not> GetError veto 1)
                 21 EventErrors;
               EventErrors = set_error_if
                 (\<bar>GetQEC veto - GetQEC prev\<bar> > entry - prevGoodEntry
                    \<and> entry > firstGoodEntry \<and> GetQEC veto \<noteq> 0)
                 22 EventErrors;
               EventErrors = set_error_if
                 (GetQEC2 veto = 0 \<and> entry \<noteq> 0 \<and> entry > firstGoodEntry \<and> \<not> GetError veto 1)
                 23 EventErrors;
               EventErrors = set_error_if
                 (\<bar>GetQEC2 veto - GetQEC2 prev\<bar> > entry - prevGoodEntry
                    \<and> entry > firstGoodEntry \<and> GetQEC2 veto \<noteq> 0)
                 24 EventErrors;
               skip = skip_synch 18 EventErrors skip;
               ErrorVec = EventErrors
           in (skip, ErrorVec))"

text \<open>
  The four-argument overload makes a vector of its own and returns only \<open>skip\<close>.
\<close>

definition CheckEventErrors_noVec ::
  "MJVetoEvent \<Rightarrow> MJVetoEvent \<Rightarrow> MJVetoEvent \<Rightarrow> int \<Rightarrow> bool" where
  "CheckEventErrors_noVec veto prev first prevGoodEntry =
     (let ErrorVec = replicate 29 (0::int)
      in fst (CheckEventErrors veto prev first prevGoodEntry ErrorVec))"

text \<open>
  Modelled from the spec: an event before anything is written to it. Every flag
  is false, every number is 0, and the entry index is the sentinel -1 by which
  CheckEventErrors recognises that the first good event is not known yet.
\<close>

definition blank_event :: MJVetoEvent where
  "blank_event =
     \<lparr>GetError = (\<lambda>i. False), GetBadScaler = False, GetRun = 0, GetEntry = - 1,
      GetTimeSec = 0, GetTimeSBC = 0, GetSEC = 0, GetQEC = 0, GetQEC2 = 0,
      GetQDC = (\<lambda>q. 0), GetSWThresh = (\<lambda>q. 0), GetMultip = 0\<rparr>"


section \<open>InterpTime\<close>

text \<open>
  Reading a vector outside its bounds is undefined behaviour in C++; the model
  returns it as a fault.
\<close>

datatype fault = OutOfRange

text \<open>
  \<^verbatim>\<open>for (int i = entry; i < (int)entries.size(); i++)
    if (badScaler[i] == 0) { upper = times[i]; break; }\<close>
\<close>

function upper_scan :: "nat \<Rightarrow> real list \<Rightarrow> real list \<Rightarrow> bool list \<Rightarrow> real \<Rightarrow> real" where
  "upper_scan i times' entries badScaler upper =
     (if i < length entries
      then (if \<not> badScaler ! i then times' ! i
            else upper_scan (i + 1) times' entries badScaler upper)
      else upper)"
  by pat_completeness auto
termination
  by (relation "measure (\<lambda>(i, times', entries, badScaler, upper). length entries - i)") auto

declare upper_scan.simps [simp del]

text \<open>
  \<^verbatim>\<open>for (int j = entry; j > 0; j--)
    if (badScaler[j] == 0) { lower = times[j]; break; }\<close>
\<close>

function lower_scan :: "nat \<Rightarrow> real list \<Rightarrow> bool list \<Rightarrow> real \<Rightarrow> real" where
  "lower_scan j times' badScaler lower =
     (if j > 0
      then (if \<not> badScaler ! j then times' ! j
            else lower_scan (j - 1) times' badScaler lower)
      else lower)"
  by pat_completeness auto
termination
  by (relation "measure (\<lambda>(j, times', badScaler, lower). j)") auto

declare lower_scan.simps [simp del]

definition InterpTime :: "int \<Rightarrow> real list \<Rightarrow> real list \<Rightarrow> bool list \<Rightarrow> fault + real" where
  "InterpTime entry times' entries badScaler =
     (if length times' \<noteq> length entries \<or> length times' \<noteq> length badScaler
      then Inr (- 1)
      else if entry < 0 \<or> int (length badScaler) \<le> entry
      then Inl OutOfRange
      else
        let iTime = 0 :: real;
            lower = 0 :: real;
            upper = 0 :: real
        in if \<not> badScaler ! nat entry then Inr (times' ! nat entry)
           else
             let upper = upper_scan (nat entry) times' entries badScaler upper;
                 lower = lower_scan (nat entry) times' badScaler lower;
                 iTime = (upper + lower) / 2
             in Inr iTime)"


section \<open>PanelMap\<close>

definition PanelMap :: "int \<Rightarrow> int \<Rightarrow> int" where
  "PanelMap i runNum =
     (if i = 0 then 0
      else if i = 1 then 0
      else if i = 2 then 0
      else if i = 3 then 0
      else if i = 4 then 0
      else if i = 5 then 0
      else if i = 6 then 1
      else if i = 7 then 1
      else if i = 8 then 1
      else if i = 9 then 1
      else if i = 10 then 1
      else if i = 11 then 1
      else if i = 17 then 3
      else if i = 18 then 3
      else if i = 20 then 2
      else if i = 21 then 2
      else if i = 15 then 5
      else if i = 16 then 5
      else if i = 19 then 4
      else if i = 23 then 4
      else if i = 24 then 6
      else if i = 25 then 7
      else if i = 26 then 6
      else if i = 27 then 7
      else if i = 12 then 8
      else if i = 13 then 8
      else if i = 14 then 9
      else if i = 22 then 9
      else if i = 28 then 10
      else if i = 29 then 11
      else if i = 30 then 10
      else if i = 31 then 11
      else - 1)"


section \<open>The cuts and the muon identification of ProcessVetoData\<close>

text \<open>
  The energy cut, lines 779 to 785; \<open>energy_cut\<close> is the value that the block
  leaves in the variable \<^verbatim>\<open>EnergyCut\<close>.
  \<^verbatim>\<open>for (int q = 0; q < 32; q++) if (veto.GetQDC(q) > 500) over500Count++;\<close>
\<close>

function over500_loop :: "nat \<Rightarrow> MJVetoEvent \<Rightarrow> int \<Rightarrow> int" where
  "over500_loop q veto over500Count =
     (if q < 32
      then over500_loop (q + 1) veto
             (if GetQDC veto q > 500 then over500Count + 1 else over500Count)
      else over500Count)"
  by pat_completeness auto
termination
  by (relation "measure (\<lambda>(q, veto, over500Count). 32 - q)") auto

declare over500_loop.simps [simp del]

definition energy_cut :: "MJVetoEvent \<Rightarrow> bool" where
  "energy_cut veto =
     (let EnergyCut = False;
          over500Count = 0;
          over500Count = over500_loop 0 veto over500Count
      in if over500Count \<ge> 2 then True else EnergyCut)"

text \<open>
  The muon identification, lines 816 to 851. \<open>PlaneTrue\<close> is a
  \<^verbatim>\<open>vector<int>\<close>; an entry counts as true in a condition when it is not 0.
  The result is the vector \<open>CoinType\<close> and, when both cuts pass, the label
  \<open>hitType\<close> that is printed.
\<close>

definition hitType :: "int \<Rightarrow> string" where
  "hitType type =
     (if type = 4 then ''compound''
      else if type = 3 then ''top+sides''
      else if type = 2 then ''side+bottom''
      else if type = 1 then ''vertical''
      else if type = 0 then ''2+ panels''
      else '''')"

definition MuonId :: "bool \<Rightarrow> bool \<Rightarrow> int list \<Rightarrow> int list \<times> string option" where
  "MuonId TimeCut EnergyCut PlaneTrue =
     (let CoinType = replicate 32 (0::int)
      in if TimeCut \<and> EnergyCut
         then
           let type = 0 :: int;
               a = False; b = False; c = False;
               CoinType = CoinType[0 := 1];
               (CoinType, a, type) =
                 (if PlaneTrue ! 0 \<noteq> 0 \<and> PlaneTrue ! 1 \<noteq> 0
                       \<and> PlaneTrue ! 2 \<noteq> 0 \<and> PlaneTrue ! 3 \<noteq> 0
                  then (CoinType[1 := 1], True, 1)
                  else (CoinType, a, type));
               (CoinType, b, type) =
                 (if (PlaneTrue ! 0 \<noteq> 0 \<and> PlaneTrue ! 1 \<noteq> 0)
                       \<and> ((PlaneTrue ! 2 \<noteq> 0 \<and> PlaneTrue ! 3 \<noteq> 0)
                          \<or> (PlaneTrue ! 4 \<noteq> 0 \<and> PlaneTrue ! 5 \<noteq> 0)
                          \<or> (PlaneTrue ! 6 \<noteq> 0 \<and> PlaneTrue ! 7 \<noteq> 0)
                          \<or> (PlaneTrue ! 8 \<noteq> 0 \<and> PlaneTrue ! 9 \<noteq> 0)
                          \<or> (PlaneTrue ! 10 \<noteq> 0 \<and> PlaneTrue ! 11 \<noteq> 0))
                  then (CoinType[2 := 1], True, 2)
                  else (CoinType, b, type));
               (CoinType, c, type) =
                 (if (PlaneTrue ! 2 \<noteq> 0 \<and> PlaneTrue ! 3 \<noteq> 0)
                       \<and> ((PlaneTrue ! 4 \<noteq> 0 \<and> PlaneTrue ! 5 \<noteq> 0)
                          \<or> (PlaneTrue ! 6 \<noteq> 0 \<and> PlaneTrue ! 7 \<noteq> 0)
                          \<or> (PlaneTrue ! 8 \<noteq> 0 \<and> PlaneTrue ! 9 \<noteq> 0)
                          \<or> (PlaneTrue ! 10 \<noteq> 0 \<and> PlaneTrue ! 11 \<noteq> 0))
                  then (CoinType[3 := 1], True, 3)
                  else (CoinType, c, type));
               type = (if (a \<and> b) \<or> (a \<and> c) \<or> (b \<and> c) then 4 else type)
           in (CoinType, Some (hitType type))
         else (CoinType, None))"


section \<open>The short-run adjustment of the LED period in ProcessVetoData\<close>

text \<open>
  Lines 436 to 452. The state is the variables the block reads and writes:
  \<open>LEDperiod\<close> as line 434 left it, \<open>badLEDFreq\<close>, and the two error vectors.
  \<open>vEntries\<close>, \<open>simpleLEDCount\<close> and \<open>duration\<close> are only read.
\<close>

record led_state =
  LEDperiod :: real
  badLEDFreq :: bool
  ErrorCount :: "int list"
  EventError :: "int list"

definition short_run_adjust :: "int \<Rightarrow> int \<Rightarrow> real \<Rightarrow> led_state \<Rightarrow> led_state" where
  "short_run_adjust vEntries simpleLEDCount duration s =
     (let s = (if LEDperiod s > 9 \<or> vEntries < 100
               then (if simpleLEDCount > 3
                     then s\<lparr>LEDperiod := duration / real_of_int simpleLEDCount\<rparr>
                     else s\<lparr>LEDperiod := 9999, badLEDFreq := True\<rparr>)
               else s)
      in if LEDperiod s > 20 \<or> LEDperiod s < 0 \<or> badLEDFreq s
         then s\<lparr>ErrorCount := (ErrorCount s)[25 := ErrorCount s ! 25 + 1],
                EventError := (EventError s)[25 := 1]\<rparr>
         else s)"


section \<open>FindPanelThreshold\<close>

text \<open>
  Modelled from the spec: the histogram class \<^verbatim>\<open>TH1D\<close> belongs to the ROOT
  library and is not part of \<^verbatim>\<open>auto-veto.cc\<close>. The spec names what
  FindPanelThreshold asks of it: the first bin whose count exceeds a floor, a
  window of bins, the highest-count bin of the window, and the position of a
  bin. The record holds a histogram with \<open>fNbins\<close> bins of equal width on
  \<open>[fXmin, fXmax)\<close>; bin 0 counts the values below \<open>fXmin\<close> and bin
  \<open>fNbins + 1\<close> the values from \<open>fXmax\<close> on. \<open>fFirst\<close>, \<open>fLast\<close> and
  \<open>kAxisRange\<close> are the range of bins that the axis is restricted to. The
  functions follow ROOT 6.
\<close>

record TH1D =
  fNbins :: int
  fXmin :: real
  fXmax :: real
  fArray :: "int \<Rightarrow> real"
  fFirst :: int
  fLast :: int
  kAxisRange :: bool

text \<open>\<^verbatim>\<open>new TH1D(name, title, nbinsx, xlow, xup)\<close>\<close>

definition TH1D_new :: "int \<Rightarrow> real \<Rightarrow> real \<Rightarrow> TH1D" where
  "TH1D_new nbinsx xlow xup =
     \<lparr>fNbins = nbinsx, fXmin = xlow, fXmax = xup, fArray = (\<lambda>bin. 0),
      fFirst = 0, fLast = 0, kAxisRange = False\<rparr>"

definition FindBin :: "TH1D \<Rightarrow> real \<Rightarrow> int" where
  "FindBin h x =
     (if x < fXmin h then 0
      else if \<not> x < fXmax h then fNbins h + 1
      else 1 + \<lfloor>real_of_int (fNbins h) * (x - fXmin h) / (fXmax h - fXmin h)\<rfloor>)"

definition Fill :: "TH1D \<Rightarrow> real \<Rightarrow> TH1D" where
  "Fill h x = (let bin = FindBin h x in h\<lparr>fArray := (fArray h)(bin := fArray h bin + 1)\<rparr>)"

text \<open>
  \<^verbatim>\<open>FindFirstBinAbove(threshold, 1)\<close>: the first of the bins 1 to \<open>fNbins\<close> whose
  content is above the threshold, or -1.
\<close>

function first_above :: "int \<Rightarrow> TH1D \<Rightarrow> real \<Rightarrow> int" where
  "first_above bin h threshold =
     (if bin \<le> fNbins h
      then (if fArray h bin > threshold then bin else first_above (bin + 1) h threshold)
      else - 1)"
  by pat_completeness auto
termination
  by (relation "measure (\<lambda>(bin, h, threshold). nat (fNbins h + 1 - bin))") auto

declare first_above.simps [simp del]

definition FindFirstBinAbove :: "TH1D \<Rightarrow> real \<Rightarrow> int" where
  "FindFirstBinAbove h threshold = first_above 1 h threshold"

text \<open>\<^verbatim>\<open>GetXaxis()->SetRange(first, last)\<close>\<close>

definition SetRange :: "TH1D \<Rightarrow> int \<Rightarrow> int \<Rightarrow> TH1D" where
  "SetRange h first' last' =
     (let nCells = fNbins h + 1
      in if last' < first' \<or> (first' < 0 \<and> last' < 0)
            \<or> (first' > nCells \<and> last' > nCells) \<or> (first' = 0 \<and> last' = 0)
         then h\<lparr>fFirst := 1, fLast := fNbins h, kAxisRange := False\<rparr>
         else h\<lparr>fFirst := max first' 0, fLast := min last' nCells, kAxisRange := True\<rparr>)"

definition GetFirst :: "TH1D \<Rightarrow> int" where
  "GetFirst h = (if \<not> kAxisRange h then 1 else fFirst h)"

definition GetLast :: "TH1D \<Rightarrow> int" where
  "GetLast h = (if \<not> kAxisRange h then fNbins h else fLast h)"

text \<open>
  \<^verbatim>\<open>GetMaximumBin()\<close>: the bins of the range in order, keeping the first bin
  whose content is above every content before it.
\<close>

definition FLT_MAX :: real where
  "FLT_MAX = 340282346638528859811704183484516925440"

function maximum_scan :: "int \<Rightarrow> int \<Rightarrow> TH1D \<Rightarrow> real \<Rightarrow> int \<Rightarrow> int" where
  "maximum_scan binx xlast h maximum locm =
     (if binx \<le> xlast
      then (let val = fArray h binx
            in if val > maximum
               then maximum_scan (binx + 1) xlast h val binx
               else maximum_scan (binx + 1) xlast h maximum locm)
      else locm)"
  by pat_completeness auto
termination
  by (relation "measure (\<lambda>(binx, xlast, h, maximum, locm). nat (xlast + 1 - binx))") auto

declare maximum_scan.simps [simp del]

definition GetMaximumBin :: "TH1D \<Rightarrow> int" where
  "GetMaximumBin h = maximum_scan (GetFirst h) (GetLast h) h (- FLT_MAX) 0"

definition GetBinCenter :: "TH1D \<Rightarrow> int \<Rightarrow> real" where
  "GetBinCenter h bin =
     (let binwidth = (fXmax h - fXmin h) / real_of_int (fNbins h)
      in fXmin h + real_of_int (bin - 1) * binwidth + 0.5 * binwidth)"

text \<open>
  The conversion of a \<^verbatim>\<open>double\<close> to \<^verbatim>\<open>int\<close> drops the fraction (it rounds
  towards zero).
\<close>

definition double_to_int :: "real \<Rightarrow> int" where
  "double_to_int x = (if 0 \<le> x then \<lfloor>x\<rfloor> else \<lceil>x\<rceil>)"

text \<open>
  FindPanelThreshold, lines 911 to 923. The histogram is passed by pointer and
  SetRange changes it, so the function returns it beside the threshold.
\<close>

definition FindPanelThreshold :: "TH1D \<Rightarrow> int \<Rightarrow> int \<Rightarrow> int \<Rightarrow> int \<times> TH1D" where
  "FindPanelThreshold qdcHist threshVal panel runNum =
     (if runNum > 45000000 \<and> panel > 23 then (9999, qdcHist)
      else
        let firstNonzeroBin = FindFirstBinAbove qdcHist 1;
            qdcHist = SetRange qdcHist (firstNonzeroBin - 10) (firstNonzeroBin + 50);
            bin = GetMaximumBin qdcHist
        in if firstNonzeroBin = - 1 then (- 1, qdcHist)
           else
             let xval = GetBinCenter qdcHist bin
             in (double_to_int (xval + real_of_int threshVal), qdcHist))"

text \<open>
  The histogram of the low amplitudes of one channel, as VetoThreshFinder makes
  it (\<^verbatim>\<open>bins=500, lower=0, upper=500\<close>), and the margin it passes
  (\<^verbatim>\<open>threshVal = 35\<close>).
\<close>

definition hLowQDC :: TH1D where
  "hLowQDC = TH1D_new 500 0 500"

definition threshVal :: int where
  "threshVal = 35"

text \<open>
  The highest-count bin of a range of bins, the first one if several have the
  highest count: \<open>m\<close> lies in the range, no bin of the range has more, and every
  bin of the range before \<open>m\<close> has less. This is the property that the theorems
  about GetMaximumBin state.
\<close>

definition is_mode :: "TH1D \<Rightarrow> int \<Rightarrow> int \<Rightarrow> int \<Rightarrow> bool" where
  "is_mode h xfirst xlast m =
     (xfirst \<le> m \<and> m \<le> xlast
      \<and> (\<forall>k \<in> {xfirst..xlast}. fArray h k \<le> fArray h m)
      \<and> (\<forall>k \<in> {xfirst..<m}. fArray h k < fArray h m))"


section \<open>Loop lemmas for CheckEventErrors\<close>

lemma length_copy_errors: "length (copy_errors i veto E) = length E"
proof (induction i veto E rule: copy_errors.induct)
  case (1 i veto E)
  show ?case
  proof (cases "i < 18")
    case True
    with "1" show ?thesis by (simp add: copy_errors.simps [of i])
  next
    case False
    then show ?thesis by (simp add: copy_errors.simps [of i])
  qed
qed

lemma nth_copy_errors:
  "k < length E \<Longrightarrow>
   copy_errors i veto E ! k = (if i \<le> k \<and> k < 18 then of_bool (GetError veto k) else E ! k)"
proof (induction i veto E rule: copy_errors.induct)
  case (1 i veto E)
  show ?case
  proof (cases "i < 18")
    case True
    have "copy_errors i veto E ! k
          = copy_errors (i + 1) veto (E[i := of_bool (GetError veto i)]) ! k"
      using True by (simp add: copy_errors.simps [of i])
    also have "\<dots> = (if i + 1 \<le> k \<and> k < 18 then of_bool (GetError veto k)
                     else E[i := of_bool (GetError veto i)] ! k)"
      using "1.IH" [OF True] "1.prems" by simp
    also have "\<dots> = (if i \<le> k \<and> k < 18 then of_bool (GetError veto k) else E ! k)"
      using "1.prems" by (cases "k = i") (auto simp: True)
    finally show ?thesis .
  next
    case False
    then show ?thesis by (simp add: copy_errors.simps [of i])
  qed
qed

lemma skip_structural_eq:
  "skip_structural q E skip =
     (skip \<or> (\<exists>k. q \<le> k \<and> k < 18 \<and> E ! k = 1 \<and> skips_structural k))"
proof (induction q E skip rule: skip_structural.induct)
  case (1 q E skip)
  show ?case
  proof (cases "q < 18")
    case True
    define hit where "hit k = (k < 18 \<and> E ! k = 1 \<and> skips_structural k)" for k
    have from_q: "(\<exists>k. q \<le> k \<and> hit k) = (hit q \<or> (\<exists>k. q + 1 \<le> k \<and> hit k))"
    proof
      assume "\<exists>k. q \<le> k \<and> hit k"
      then obtain k where k: "q \<le> k" "hit k" by blast
      then have "k = q \<or> q + 1 \<le> k" by arith
      with k show "hit q \<or> (\<exists>k. q + 1 \<le> k \<and> hit k)" by blast
    next
      assume "hit q \<or> (\<exists>k. q + 1 \<le> k \<and> hit k)"
      then show "\<exists>k. q \<le> k \<and> hit k"
      proof
        assume "hit q"
        then show ?thesis by blast
      next
        assume "\<exists>k. q + 1 \<le> k \<and> hit k"
        then obtain k where "q + 1 \<le> k" "hit k" by blast
        then have "q \<le> k \<and> hit k" by simp
        then show ?thesis by blast
      qed
    qed
    have "skip_structural q E skip =
          skip_structural (q + 1) E (if E ! q = 1 \<and> skips_structural q then True else skip)"
      using True by (simp add: skip_structural.simps [of q])
    also have "\<dots> = ((if E ! q = 1 \<and> skips_structural q then True else skip)
                       \<or> (\<exists>k. q + 1 \<le> k \<and> hit k))"
      using "1.IH" [OF True] by (simp add: hit_def)
    also have "\<dots> = (skip \<or> hit q \<or> (\<exists>k. q + 1 \<le> k \<and> hit k))"
      using True by (simp add: hit_def) blast
    also have "\<dots> = (skip \<or> (\<exists>k. q \<le> k \<and> hit k))"
      by (simp only: from_q)
    finally show ?thesis by (simp add: hit_def)
  next
    case False
    then have "\<And>k. q \<le> k \<Longrightarrow> \<not> k < 18" by arith
    with False show ?thesis by (simp add: skip_structural.simps [of q]) blast
  qed
qed

lemma skip_synch_eq:
  "skip_synch q E skip =
     (skip \<or> (\<exists>k. q \<le> k \<and> k < 26 \<and> E ! k = 1 \<and> skips_synch k))"
proof (induction q E skip rule: skip_synch.induct)
  case (1 q E skip)
  show ?case
  proof (cases "q < 26")
    case True
    define hit where "hit k = (k < 26 \<and> E ! k = 1 \<and> skips_synch k)" for k
    have from_q: "(\<exists>k. q \<le> k \<and> hit k) = (hit q \<or> (\<exists>k. q + 1 \<le> k \<and> hit k))"
    proof
      assume "\<exists>k. q \<le> k \<and> hit k"
      then obtain k where k: "q \<le> k" "hit k" by blast
      then have "k = q \<or> q + 1 \<le> k" by arith
      with k show "hit q \<or> (\<exists>k. q + 1 \<le> k \<and> hit k)" by blast
    next
      assume "hit q \<or> (\<exists>k. q + 1 \<le> k \<and> hit k)"
      then show "\<exists>k. q \<le> k \<and> hit k"
      proof
        assume "hit q"
        then show ?thesis by blast
      next
        assume "\<exists>k. q + 1 \<le> k \<and> hit k"
        then obtain k where "q + 1 \<le> k" "hit k" by blast
        then have "q \<le> k \<and> hit k" by simp
        then show ?thesis by blast
      qed
    qed
    have "skip_synch q E skip =
          skip_synch (q + 1) E (if E ! q = 1 \<and> skips_synch q then True else skip)"
      using True by (simp add: skip_synch.simps [of q])
    also have "\<dots> = ((if E ! q = 1 \<and> skips_synch q then True else skip)
                       \<or> (\<exists>k. q + 1 \<le> k \<and> hit k))"
      using "1.IH" [OF True] by (simp add: hit_def)
    also have "\<dots> = (skip \<or> hit q \<or> (\<exists>k. q + 1 \<le> k \<and> hit k))"
      using True by (simp add: hit_def) blast
    also have "\<dots> = (skip \<or> (\<exists>k. q \<le> k \<and> hit k))"
      by (simp only: from_q)
    finally show ?thesis by (simp add: hit_def)
  next
    case False
    then have "\<And>k. q \<le> k \<Longrightarrow> \<not> k < 26" by arith
    with False show ?thesis by (simp add: skip_synch.simps [of q]) blast
  qed
qed

lemma length_set_error_if [simp]: "length (set_error_if c k E) = length E"
  by (simp add: set_error_if_def)

lemma nth_set_error_if:
  "j < length E \<Longrightarrow> set_error_if c k E ! j = (if c \<and> j = k then 1 else E ! j)"
  by (simp add: set_error_if_def)


section \<open>The error vector and the result of CheckEventErrors\<close>

lemma nth_set_error_if_any:
  "set_error_if c k E ! j = (if c \<and> j = k \<and> k < length E then 1 else E ! j)"
proof (cases "k < length E")
  case True
  then show ?thesis by (simp add: set_error_if_def nth_list_update)
next
  case False
  then have "E[k := 1] = E" by (simp add: list_update_beyond)
  with False show ?thesis by (simp add: set_error_if_def)
qed

lemma CheckEventErrors_no_first:
  "GetEntry first = - 1 \<Longrightarrow>
   CheckEventErrors veto prev first prevGoodEntry ErrorVec =
     (skip_structural 0 (copy_errors 0 veto (replicate 29 0)) False,
      set_error_if (GetBadScaler veto \<and> (GetRun veto < 8557 \<or> GetTimeSBC veto > 2000000000))
        25 (copy_errors 0 veto (replicate 29 0)))"
  by (simp add: CheckEventErrors_def Let_def)

lemma length_CheckEventErrors:
  "length (snd (CheckEventErrors veto prev first prevGoodEntry ErrorVec)) = 29"
  by (simp add: CheckEventErrors_def Let_def length_copy_errors)

lemma nth_CheckEventErrors_structural:
  "k < 18 \<Longrightarrow>
   snd (CheckEventErrors veto prev first prevGoodEntry ErrorVec) ! k = of_bool (GetError veto k)"
  by (simp add: CheckEventErrors_def Let_def nth_set_error_if_any nth_copy_errors
      length_copy_errors)

lemma nth_CheckEventErrors_bit:
  "k < 29 \<Longrightarrow>
   snd (CheckEventErrors veto prev first prevGoodEntry ErrorVec) ! k = 0
   \<or> snd (CheckEventErrors veto prev first prevGoodEntry ErrorVec) ! k = 1"
  by (simp add: CheckEventErrors_def Let_def nth_set_error_if_any nth_copy_errors
      length_copy_errors)

lemma nth_CheckEventErrors_no_first:
  "GetEntry first = - 1 \<Longrightarrow> 18 \<le> k \<Longrightarrow> k < 29 \<Longrightarrow>
   snd (CheckEventErrors veto prev first prevGoodEntry ErrorVec) ! k =
     (if k = 25
      then of_bool (GetBadScaler veto \<and> (GetRun veto < 8557 \<or> GetTimeSBC veto > 2000000000))
      else 0)"
  by (simp add: CheckEventErrors_no_first nth_set_error_if_any nth_copy_errors
      length_copy_errors)


lemma CheckEventErrors_first:
  "GetEntry first \<noteq> - 1 \<Longrightarrow>
   fst (CheckEventErrors veto prev first prevGoodEntry ErrorVec) =
     skip_synch 18 (snd (CheckEventErrors veto prev first prevGoodEntry ErrorVec))
       (skip_structural 0 (copy_errors 0 veto (replicate 29 0)) False)"
  by (simp add: CheckEventErrors_def Let_def)

lemma skips_structural_less: "skips_structural k \<Longrightarrow> k < 18"
  by (auto simp: skips_structural_def)

lemma skips_synch_less: "skips_synch k \<Longrightarrow> 18 \<le> k \<and> k < 25"
  by (auto simp: skips_synch_def)

lemma fst_CheckEventErrors:
  "fst (CheckEventErrors veto prev first prevGoodEntry ErrorVec) =
     (\<exists>k. snd (CheckEventErrors veto prev first prevGoodEntry ErrorVec) ! k = 1
          \<and> (skips_structural k \<or> skips_synch k))"
proof -
  let ?R = "CheckEventErrors veto prev first prevGoodEntry ErrorVec"
  let ?E0 = "copy_errors 0 veto (replicate 29 0)"
  have low: "?E0 ! k = snd ?R ! k" if "k < 18" for k
    using that by (simp add: nth_CheckEventErrors_structural nth_copy_errors)
  have structural:
    "skip_structural 0 ?E0 False = (\<exists>k. snd ?R ! k = 1 \<and> skips_structural k)"
  proof -
    have "skip_structural 0 ?E0 False = (\<exists>k. k < 18 \<and> ?E0 ! k = 1 \<and> skips_structural k)"
      by (simp add: skip_structural_eq)
    also have "\<dots> = (\<exists>k. k < 18 \<and> snd ?R ! k = 1 \<and> skips_structural k)"
      using low by auto
    also have "\<dots> = (\<exists>k. snd ?R ! k = 1 \<and> skips_structural k)"
      using skips_structural_less by blast
    finally show ?thesis .
  qed
  show ?thesis
  proof (cases "GetEntry first = - 1")
    case True
    have none: "\<not> (snd ?R ! k = 1 \<and> skips_synch k)" for k
    proof
      assume k: "snd ?R ! k = 1 \<and> skips_synch k"
      then have "18 \<le> k" "k < 29" "k \<noteq> 25" using skips_synch_less [of k] by auto
      then have "snd ?R ! k = 0" using True by (simp add: nth_CheckEventErrors_no_first)
      with k show False by simp
    qed
    have "fst ?R = skip_structural 0 ?E0 False"
      using True by (simp add: CheckEventErrors_no_first)
    with structural none show ?thesis by blast
  next
    case False
    have "fst ?R = (skip_structural 0 ?E0 False
                    \<or> (\<exists>k. 18 \<le> k \<and> k < 26 \<and> snd ?R ! k = 1 \<and> skips_synch k))"
      using False by (simp add: CheckEventErrors_first skip_synch_eq)
    also have "(\<exists>k. 18 \<le> k \<and> k < 26 \<and> snd ?R ! k = 1 \<and> skips_synch k)
               = (\<exists>k. snd ?R ! k = 1 \<and> skips_synch k)"
      using skips_synch_less by fastforce
    finally show ?thesis using structural by blast
  qed
qed

lemma blocking_slots:
  "(k \<in> {1, 2, 3, 5, 6, 9, 13, 14} \<union> {18..24}) = (skips_structural k \<or> skips_synch k)"
  by (auto simp: skips_structural_def skips_synch_def)

text \<open>
  Claim C1. For every event, previous event, first good event and previous good
  entry, the result \<open>skip\<close> of CheckEventErrors is true exactly when one of the
  blocking slots 1, 2, 3, 5, 6, 9, 13, 14 and 18 to 24 of the returned error
  vector is true.
\<close>

theorem CheckEventErrors_skip_iff_blocking:
  "fst (CheckEventErrors veto prev first prevGoodEntry ErrorVec) =
     (\<exists>k \<in> {1, 2, 3, 5, 6, 9, 13, 14} \<union> {18..24}.
        snd (CheckEventErrors veto prev first prevGoodEntry ErrorVec) ! k \<noteq> 0)"
proof -
  let ?R = "CheckEventErrors veto prev first prevGoodEntry ErrorVec"
  have bit: "(snd ?R ! k \<noteq> 0) = (snd ?R ! k = 1)" if "skips_structural k \<or> skips_synch k" for k
  proof -
    from that have "k < 29" using skips_structural_less [of k] skips_synch_less [of k] by auto
    then show ?thesis
      using nth_CheckEventErrors_bit [of k veto prev first prevGoodEntry ErrorVec] by auto
  qed
  have "(\<exists>k \<in> {1, 2, 3, 5, 6, 9, 13, 14} \<union> {18..24}. snd ?R ! k \<noteq> 0)
        = (\<exists>k. (skips_structural k \<or> skips_synch k) \<and> snd ?R ! k \<noteq> 0)"
    unfolding Bex_def blocking_slots ..
  also have "\<dots> = (\<exists>k. snd ?R ! k = 1 \<and> (skips_structural k \<or> skips_synch k))"
    using bit by blast
  finally show ?thesis by (simp only: fst_CheckEventErrors)
qed


theorem CheckEventErrors_skip_iff_blocking_witness:
  "fst (CheckEventErrors (blank_event\<lparr>GetError := (\<lambda>i. i = 13)\<rparr>) blank_event blank_event 0 [])
   \<and> snd (CheckEventErrors (blank_event\<lparr>GetError := (\<lambda>i. i = 13)\<rparr>)
          blank_event blank_event 0 []) ! 13 = 1"
proof -
  let ?R = "CheckEventErrors (blank_event\<lparr>GetError := (\<lambda>i. i = 13)\<rparr>) blank_event blank_event 0 []"
  have slot: "snd ?R ! 13 = 1"
    by (simp add: nth_CheckEventErrors_structural)
  then have "\<exists>k \<in> {1, 2, 3, 5, 6, 9, 13, 14} \<union> {18..24}. snd ?R ! k \<noteq> 0"
    by simp
  then have "fst ?R"
    using CheckEventErrors_skip_iff_blocking
      [of "blank_event\<lparr>GetError := (\<lambda>i. i = 13)\<rparr>" blank_event blank_event 0 "[]"]
    by simp
  with slot show ?thesis by simp
qed

text \<open>
  Claim C4 as stated fails: with the first good event unknown, an event with a
  bad scaler in a run before 8557 gets slot 25.
\<close>

theorem CheckEventErrors_no_first_slot25_counterexample:
  "GetEntry blank_event = - 1
   \<and> snd (CheckEventErrors (blank_event\<lparr>GetBadScaler := True, GetRun := 100\<rparr>)
          blank_event blank_event 0 (replicate 29 0)) ! 25 = 1"
  by (simp add: nth_CheckEventErrors_no_first blank_event_def)

text \<open>
  Claim C4, amended. When the entry index of the first good event is -1, the
  slots 18 to 24 and 26 to 28 of the returned error vector are false, and slot 25
  is true exactly when the event has a bad scaler and its run is before 8557 or
  its SBC time is above 2000000000.
\<close>

theorem CheckEventErrors_no_first_slots:
  "GetEntry first = - 1 \<Longrightarrow>
   (\<forall>k \<in> {18..24} \<union> {26..28}.
      snd (CheckEventErrors veto prev first prevGoodEntry ErrorVec) ! k = 0)
   \<and> (snd (CheckEventErrors veto prev first prevGoodEntry ErrorVec) ! 25 \<noteq> 0)
       = (GetBadScaler veto \<and> (GetRun veto < 8557 \<or> GetTimeSBC veto > 2000000000))"
proof -
  assume nofirst: "GetEntry first = - 1"
  let ?R = "CheckEventErrors veto prev first prevGoodEntry ErrorVec"
  have "snd ?R ! k = 0" if "k \<in> {18..24} \<union> {26..28}" for k
  proof -
    from that have "18 \<le> k" "k < 29" "k \<noteq> 25" by auto
    then show ?thesis using nofirst by (simp add: nth_CheckEventErrors_no_first)
  qed
  moreover have "(snd ?R ! 25 \<noteq> 0)
      = (GetBadScaler veto \<and> (GetRun veto < 8557 \<or> GetTimeSBC veto > 2000000000))"
    using nofirst by (simp add: nth_CheckEventErrors_no_first)
  ultimately show ?thesis by blast
qed

theorem CheckEventErrors_no_first_slots_witness:
  "GetEntry blank_event = - 1
   \<and> snd (CheckEventErrors (blank_event\<lparr>GetSEC := 0, GetEntry := 7\<rparr>)
          blank_event blank_event 0 []) ! 19 = 0
   \<and> snd (CheckEventErrors (blank_event\<lparr>GetSEC := 0, GetEntry := 7\<rparr>)
          blank_event blank_event 0 []) ! 25 = 0"
proof -
  have nofirst: "GetEntry blank_event = - 1" by (simp add: blank_event_def)
  have "\<not> (GetBadScaler (blank_event\<lparr>GetSEC := 0, GetEntry := 7\<rparr>))"
    by (simp add: blank_event_def)
  with nofirst show ?thesis
    using CheckEventErrors_no_first_slots
      [OF nofirst, of "blank_event\<lparr>GetSEC := 0, GetEntry := 7\<rparr>" blank_event 0 "[]"]
    by simp
qed

text \<open>
  Claim C5 as stated fails: the copy loop starts at index 0, so a true flag 0 of
  the event makes slot 0 true.
\<close>

theorem CheckEventErrors_slot0_counterexample:
  "snd (CheckEventErrors (blank_event\<lparr>GetError := (\<lambda>i. i = 0)\<rparr>)
          blank_event blank_event 0 (replicate 29 0)) ! 0 = 1"
  by (simp add: nth_CheckEventErrors_structural)

text \<open>
  Claim C5, amended. The error vector that CheckEventErrors returns has length
  29, and its slot 0 is true exactly when flag 0 of the event is true.
\<close>

theorem CheckEventErrors_length_slot0:
  "length (snd (CheckEventErrors veto prev first prevGoodEntry ErrorVec)) = 29
   \<and> (snd (CheckEventErrors veto prev first prevGoodEntry ErrorVec) ! 0 \<noteq> 0) = GetError veto 0"
  by (simp add: length_CheckEventErrors nth_CheckEventErrors_structural)

theorem CheckEventErrors_length_slot0_witness:
  "length (snd (CheckEventErrors blank_event blank_event blank_event 0 [])) = 29
   \<and> snd (CheckEventErrors blank_event blank_event blank_event 0 []) ! 0 = 0"
proof -
  have "\<not> GetError blank_event 0" by (simp add: blank_event_def)
  then show ?thesis
    using CheckEventErrors_length_slot0 [of blank_event blank_event blank_event 0 "[]"]
    by simp
qed

text \<open>
  CheckEventErrors overwrites the vector that it is given: the result does not
  depend on what the vector held before the call, and the overload without a
  vector returns the same \<open>skip\<close>.
\<close>

lemma CheckEventErrors_overwrites_ErrorVec:
  "CheckEventErrors veto prev first prevGoodEntry ErrorVec1
     = CheckEventErrors veto prev first prevGoodEntry ErrorVec2
   \<and> CheckEventErrors_noVec veto prev first prevGoodEntry
     = fst (CheckEventErrors veto prev first prevGoodEntry ErrorVec1)"
  by (simp add: CheckEventErrors_def CheckEventErrors_noVec_def)


section \<open>InterpTime\<close>

lemma upper_scan_found:
  "i \<le> hi \<Longrightarrow> hi < length entries \<Longrightarrow> \<not> badScaler ! hi \<Longrightarrow>
   (\<forall>k. i \<le> k \<and> k < hi \<longrightarrow> badScaler ! k) \<Longrightarrow>
   upper_scan i times' entries badScaler upper = times' ! hi"
proof (induction i times' entries badScaler upper rule: upper_scan.induct)
  case (1 i times' entries badScaler upper)
  have inside: "i < length entries" using "1.prems" by simp
  show ?case
  proof (cases "i = hi")
    case True
    with "1.prems" inside show ?thesis by (subst upper_scan.simps) simp
  next
    case False
    with "1.prems" have bad: "badScaler ! i" and next_le: "i + 1 \<le> hi" by auto
    have "\<forall>k. i + 1 \<le> k \<and> k < hi \<longrightarrow> badScaler ! k" using "1.prems" by auto
    then have "upper_scan (i + 1) times' entries badScaler upper = times' ! hi"
      using "1.IH" [OF inside _ next_le] bad "1.prems" by simp
    with inside bad show ?thesis by (subst upper_scan.simps) simp
  qed
qed

lemma upper_scan_none:
  "(\<forall>k. i \<le> k \<and> k < length entries \<longrightarrow> badScaler ! k) \<Longrightarrow>
   upper_scan i times' entries badScaler upper = upper"
proof (induction i times' entries badScaler upper rule: upper_scan.induct)
  case (1 i times' entries badScaler upper)
  show ?case
  proof (cases "i < length entries")
    case True
    with "1.prems" have bad: "badScaler ! i" by simp
    have "\<forall>k. i + 1 \<le> k \<and> k < length entries \<longrightarrow> badScaler ! k"
      using "1.prems" by auto
    then have "upper_scan (i + 1) times' entries badScaler upper = upper"
      using "1.IH" [OF True] bad by simp
    with True bad show ?thesis by (subst upper_scan.simps) simp
  next
    case False
    then show ?thesis by (subst upper_scan.simps) simp
  qed
qed

lemma lower_scan_found:
  "lo \<le> j \<Longrightarrow> 0 < lo \<Longrightarrow> \<not> badScaler ! lo \<Longrightarrow>
   (\<forall>k. lo < k \<and> k \<le> j \<longrightarrow> badScaler ! k) \<Longrightarrow>
   lower_scan j times' badScaler lower = times' ! lo"
proof (induction j times' badScaler lower rule: lower_scan.induct)
  case (1 j times' badScaler lower)
  have pos: "0 < j" using "1.prems" by simp
  show ?case
  proof (cases "j = lo")
    case True
    with "1.prems" pos show ?thesis by (subst lower_scan.simps) simp
  next
    case False
    with "1.prems" have bad: "badScaler ! j" and prev_ge: "lo \<le> j - 1" by auto
    have "\<forall>k. lo < k \<and> k \<le> j - 1 \<longrightarrow> badScaler ! k" using "1.prems" by auto
    then have "lower_scan (j - 1) times' badScaler lower = times' ! lo"
      using "1.IH" [OF pos _ prev_ge] bad "1.prems" by simp
    with pos bad show ?thesis by (subst lower_scan.simps) simp
  qed
qed

lemma lower_scan_none:
  "(\<forall>k. 0 < k \<and> k \<le> j \<longrightarrow> badScaler ! k) \<Longrightarrow>
   lower_scan j times' badScaler lower = lower"
proof (induction j times' badScaler lower rule: lower_scan.induct)
  case (1 j times' badScaler lower)
  show ?case
  proof (cases "0 < j")
    case True
    with "1.prems" have bad: "badScaler ! j" by simp
    have "\<forall>k. 0 < k \<and> k \<le> j - 1 \<longrightarrow> badScaler ! k"
      using "1.prems" by auto
    then have "lower_scan (j - 1) times' badScaler lower = lower"
      using "1.IH" [OF True] bad by simp
    with True bad show ?thesis by (subst lower_scan.simps) simp
  next
    case False
    then show ?thesis by (subst lower_scan.simps) simp
  qed
qed

text \<open>
  Where the nearest entry with a good scaler before entry \<open>i\<close> is at an index
  \<open>lo\<close> of at least 1, and one exists after \<open>i\<close>, InterpTime returns the mean of
  the two times.
\<close>

lemma InterpTime_mean:
  assumes "length times' = length entries" and "length times' = length badScaler"
    and "i < length badScaler" and "badScaler ! i"
    and "0 < lo" and "lo < i" and "\<not> badScaler ! lo"
    and "\<forall>k. lo < k \<and> k < i \<longrightarrow> badScaler ! k"
    and "i < hi" and "hi < length badScaler" and "\<not> badScaler ! hi"
    and "\<forall>k. i < k \<and> k < hi \<longrightarrow> badScaler ! k"
  shows "InterpTime (int i) times' entries badScaler = Inr ((times' ! hi + times' ! lo) / 2)"
proof -
  have up: "\<forall>k. i \<le> k \<and> k < hi \<longrightarrow> badScaler ! k"
    using assms(4,12) by (metis le_neq_implies_less)
  have low: "\<forall>k. lo < k \<and> k \<le> i \<longrightarrow> badScaler ! k"
    using assms(4,8) by (metis le_neq_implies_less)
  have "upper_scan i times' entries badScaler 0 = times' ! hi"
    using assms(1,2,9,10,11) up by (intro upper_scan_found) auto
  moreover have "lower_scan i times' badScaler 0 = times' ! lo"
    using assms(5,6,7) low by (intro lower_scan_found) auto
  ultimately show ?thesis
    using assms(1,2,3,4) by (simp add: InterpTime_def Let_def)
qed

text \<open>
  Where the nearest entry with a good scaler before entry \<open>i\<close> is entry 0, the
  backward loop stops before it reads entry 0: the lower time stays 0 and
  InterpTime returns half of the upper time.
\<close>

lemma InterpTime_lower_at_0:
  assumes "length times' = length entries" and "length times' = length badScaler"
    and "i < length badScaler" and "badScaler ! i"
    and "\<forall>k. 0 < k \<and> k < i \<longrightarrow> badScaler ! k"
    and "i < hi" and "hi < length badScaler" and "\<not> badScaler ! hi"
    and "\<forall>k. i < k \<and> k < hi \<longrightarrow> badScaler ! k"
  shows "InterpTime (int i) times' entries badScaler = Inr ((times' ! hi + 0) / 2)"
proof -
  have up: "\<forall>k. i \<le> k \<and> k < hi \<longrightarrow> badScaler ! k"
    using assms(4,9) by (metis le_neq_implies_less)
  have low: "\<forall>k. 0 < k \<and> k \<le> i \<longrightarrow> badScaler ! k"
    using assms(4,5) by (metis le_neq_implies_less)
  have "upper_scan i times' entries badScaler 0 = times' ! hi"
    using assms(1,2,6,7,8) up by (intro upper_scan_found) auto
  moreover have "lower_scan i times' badScaler 0 = 0"
    using low by (rule lower_scan_none)
  ultimately show ?thesis
    using assms(1,2,3,4) by (simp add: InterpTime_def Let_def)
qed

text \<open>
  Claim C2 at a concrete input. The time table is 10, 15, 20 and only entry 1
  has a bad scaler. The nearest good time before entry 1 is 10 (entry 0) and the
  nearest after it is 20 (entry 2); their mean is 15. InterpTime returns 10, the
  mean of 20 and 0.
\<close>

theorem InterpTime_skips_entry_0:
  "InterpTime 1 [10, 15, 20] [0, 1, 2] [False, True, False] = Inr 10
   \<and> ([10, 15, 20] ! 0 + [10, 15, 20] ! 2) / 2 = (15::real)"
proof -
  have "InterpTime (int 1) [10, 15, 20] [0, 1, 2] [False, True, False]
        = Inr (([10, 15, 20] ! 2 + 0) / 2)"
    by (rule InterpTime_lower_at_0) (auto simp: nth_Cons')
  then show ?thesis by simp
qed

theorem InterpTime_skips_entry_0_witness:
  "InterpTime 1 [10, 15, 20] [0, 1, 2] [False, True, False] \<noteq> Inr 15"
  using InterpTime_skips_entry_0 by simp


section \<open>The muon identification\<close>

lemma MuonId_CoinType2:
  "fst (MuonId True True PlaneTrue) ! 2 =
     of_bool ((PlaneTrue ! 0 \<noteq> 0 \<and> PlaneTrue ! 1 \<noteq> 0)
       \<and> ((PlaneTrue ! 2 \<noteq> 0 \<and> PlaneTrue ! 3 \<noteq> 0)
          \<or> (PlaneTrue ! 4 \<noteq> 0 \<and> PlaneTrue ! 5 \<noteq> 0)
          \<or> (PlaneTrue ! 6 \<noteq> 0 \<and> PlaneTrue ! 7 \<noteq> 0)
          \<or> (PlaneTrue ! 8 \<noteq> 0 \<and> PlaneTrue ! 9 \<noteq> 0)
          \<or> (PlaneTrue ! 10 \<noteq> 0 \<and> PlaneTrue ! 11 \<noteq> 0)))"
  by (simp add: MuonId_def Let_def)

text \<open>
  A hit of both bottom planes and both top planes sets types 1 and 2 together,
  so its label is always ``compound'': no event is labelled ``vertical''.
\<close>

lemma MuonId_never_vertical:
  "snd (MuonId TimeCut EnergyCut PlaneTrue) \<noteq> Some ''vertical''"
  by (simp add: MuonId_def Let_def hitType_def)

text \<open>
  Claim C3 at a concrete input. Both cuts pass, the two bottom planes (0, 1) and
  the two top planes (2, 3) are hit, and no plane of a lateral pair (4 to 11) is
  hit. The code sets CoinType[2], the type it labels ``side+bottom'', and labels
  the hit ``compound''.
\<close>

theorem MuonId_top_counts_as_side:
  "fst (MuonId True True
          [1, 1, 1, 1, 0, 0, 0, 0, 0, 0, 0, 0, 0, 0, 0, 0,
           0, 0, 0, 0, 0, 0, 0, 0, 0, 0, 0, 0, 0, 0, 0, 0]) ! 2 = 1
   \<and> snd (MuonId True True
          [1, 1, 1, 1, 0, 0, 0, 0, 0, 0, 0, 0, 0, 0, 0, 0,
           0, 0, 0, 0, 0, 0, 0, 0, 0, 0, 0, 0, 0, 0, 0, 0]) = Some ''compound''"
  by (simp add: MuonId_def Let_def hitType_def)


section \<open>FindPanelThreshold\<close>

lemma first_above_none:
  "(\<forall>k. bin \<le> k \<and> k \<le> fNbins h \<longrightarrow> fArray h k \<le> threshold) \<Longrightarrow>
   first_above bin h threshold = - 1"
proof (induction bin h threshold rule: first_above.induct)
  case (1 bin h threshold)
  show ?case
  proof (cases "bin \<le> fNbins h")
    case True
    with "1.prems" have low: "\<not> threshold < fArray h bin" by (simp add: not_less)
    have "\<forall>k. bin + 1 \<le> k \<and> k \<le> fNbins h \<longrightarrow> fArray h k \<le> threshold"
      using "1.prems" by auto
    then have "first_above (bin + 1) h threshold = - 1"
      using "1.IH" [OF True low] by simp
    with True low show ?thesis by (subst first_above.simps) simp
  next
    case False
    then show ?thesis by (subst first_above.simps) simp
  qed
qed

lemma first_above_found:
  "bin \<le> f \<Longrightarrow> f \<le> fNbins h \<Longrightarrow> threshold < fArray h f \<Longrightarrow>
   (\<forall>k. bin \<le> k \<and> k < f \<longrightarrow> fArray h k \<le> threshold) \<Longrightarrow>
   first_above bin h threshold = f"
proof (induction bin h threshold rule: first_above.induct)
  case (1 bin h threshold)
  have inside: "bin \<le> fNbins h" using "1.prems" by simp
  show ?case
  proof (cases "bin = f")
    case True
    with "1.prems" inside show ?thesis by (subst first_above.simps) simp
  next
    case False
    with "1.prems" have low: "\<not> threshold < fArray h bin" and next_le: "bin + 1 \<le> f"
      by (auto simp: not_less)
    have "\<forall>k. bin + 1 \<le> k \<and> k < f \<longrightarrow> fArray h k \<le> threshold"
      using "1.prems" by auto
    then have "first_above (bin + 1) h threshold = f"
      using "1.IH" [OF inside low next_le] "1.prems" by simp
    with inside low show ?thesis by (subst first_above.simps) simp
  qed
qed

lemma maximum_scan_none:
  "(\<forall>k. binx \<le> k \<and> k \<le> xlast \<longrightarrow> fArray h k \<le> maximum) \<Longrightarrow>
   maximum_scan binx xlast h maximum locm = locm"
proof (induction binx xlast h maximum locm rule: maximum_scan.induct)
  case (1 binx xlast h maximum locm)
  show ?case
  proof (cases "binx \<le> xlast")
    case True
    with "1.prems" have low: "\<not> maximum < fArray h binx" by (simp add: not_less)
    have "\<forall>k. binx + 1 \<le> k \<and> k \<le> xlast \<longrightarrow> fArray h k \<le> maximum"
      using "1.prems" by auto
    then have "maximum_scan (binx + 1) xlast h maximum locm = locm"
      using "1.IH"(2) [OF True refl low] by simp
    with True low show ?thesis by (subst maximum_scan.simps) (simp add: Let_def)
  next
    case False
    then show ?thesis by (subst maximum_scan.simps) simp
  qed
qed

lemma maximum_scan_some:
  "\<exists>k. binx \<le> k \<and> k \<le> xlast \<and> maximum < fArray h k \<Longrightarrow>
   is_mode h binx xlast (maximum_scan binx xlast h maximum locm)
   \<and> maximum < fArray h (maximum_scan binx xlast h maximum locm)"
proof (induction binx xlast h maximum locm rule: maximum_scan.induct)
  case (1 binx xlast h maximum locm)
  from "1.prems" have inside: "binx \<le> xlast" by auto
  let ?val = "fArray h binx"
  show ?case
  proof (cases "maximum < ?val")
    case True
    have unfold: "maximum_scan binx xlast h maximum locm
                  = maximum_scan (binx + 1) xlast h ?val binx"
      using inside True by (subst maximum_scan.simps) (simp add: Let_def)
    show ?thesis
    proof (cases "\<exists>k. binx + 1 \<le> k \<and> k \<le> xlast \<and> ?val < fArray h k")
      case more: True
      let ?m = "maximum_scan (binx + 1) xlast h ?val binx"
      have ih: "is_mode h (binx + 1) xlast ?m \<and> ?val < fArray h ?m"
        using "1.IH"(1) [OF inside refl True more] .
      have "is_mode h binx xlast ?m"
        unfolding is_mode_def
      proof (intro conjI ballI)
        show "binx \<le> ?m" using ih by (simp add: is_mode_def)
        show "?m \<le> xlast" using ih by (simp add: is_mode_def)
        fix k
        { assume "k \<in> {binx..xlast}"
          then have k: "binx \<le> k \<and> k \<le> xlast" by simp
          show "fArray h k \<le> fArray h ?m"
          proof (cases "k = binx")
            case True
            then show ?thesis using ih by simp
          next
            case False
            with k have "binx + 1 \<le> k \<and> k \<le> xlast" by simp
            then show ?thesis using ih by (simp add: is_mode_def)
          qed }
        { assume "k \<in> {binx..<?m}"
          then have k: "binx \<le> k \<and> k < ?m" by simp
          show "fArray h k < fArray h ?m"
          proof (cases "k = binx")
            case True
            then show ?thesis using ih by simp
          next
            case False
            with k have "binx + 1 \<le> k \<and> k < ?m" by simp
            then show ?thesis using ih by (simp add: is_mode_def)
          qed }
      qed
      moreover have "maximum < fArray h ?m" using ih True by simp
      ultimately show ?thesis by (simp only: unfold)
    next
      case none: False
      then have "\<forall>k. binx + 1 \<le> k \<and> k \<le> xlast \<longrightarrow> fArray h k \<le> ?val"
        by (auto simp: not_less)
      then have stay: "maximum_scan (binx + 1) xlast h ?val binx = binx"
        by (rule maximum_scan_none)
      have "is_mode h binx xlast binx"
        unfolding is_mode_def
      proof (intro conjI ballI)
        show "binx \<le> binx" by simp
        show "binx \<le> xlast" by (rule inside)
        fix k
        { assume "k \<in> {binx..xlast}"
          then have k: "binx \<le> k \<and> k \<le> xlast" by simp
          show "fArray h k \<le> ?val"
          proof (cases "k = binx")
            case True
            then show ?thesis by simp
          next
            case False
            with k have "binx + 1 \<le> k \<and> k \<le> xlast" by simp
            with none show ?thesis by (auto simp: not_less)
          qed }
        { assume "k \<in> {binx..<binx}"
          then show "fArray h k < ?val" by simp }
      qed
      with True show ?thesis by (simp only: unfold stay)
    qed
  next
    case False
    have unfold: "maximum_scan binx xlast h maximum locm
                  = maximum_scan (binx + 1) xlast h maximum locm"
      using inside False by (subst maximum_scan.simps) (simp add: Let_def)
    let ?m = "maximum_scan (binx + 1) xlast h maximum locm"
    from "1.prems" obtain k0 where k0: "binx \<le> k0" "k0 \<le> xlast" "maximum < fArray h k0"
      by blast
    with False have "k0 \<noteq> binx" by auto
    with k0 have more: "\<exists>k. binx + 1 \<le> k \<and> k \<le> xlast \<and> maximum < fArray h k"
      by (intro exI [of _ k0]) simp
    have ih: "is_mode h (binx + 1) xlast ?m \<and> maximum < fArray h ?m"
      using "1.IH"(2) [OF inside refl False more] .
    have below: "?val < fArray h ?m" using False ih by simp
    have "is_mode h binx xlast ?m"
      unfolding is_mode_def
    proof (intro conjI ballI)
      show "binx \<le> ?m" using ih by (simp add: is_mode_def)
      show "?m \<le> xlast" using ih by (simp add: is_mode_def)
      fix k
      { assume "k \<in> {binx..xlast}"
          then have k: "binx \<le> k \<and> k \<le> xlast" by simp
        show "fArray h k \<le> fArray h ?m"
        proof (cases "k = binx")
          case True
          then show ?thesis using below by simp
        next
          case False
          with k have "binx + 1 \<le> k \<and> k \<le> xlast" by simp
          then show ?thesis using ih by (simp add: is_mode_def)
        qed }
      { assume "k \<in> {binx..<?m}"
          then have k: "binx \<le> k \<and> k < ?m" by simp
        show "fArray h k < fArray h ?m"
        proof (cases "k = binx")
          case True
          then show ?thesis using below by simp
        next
          case False
          with k have "binx + 1 \<le> k \<and> k < ?m" by simp
          then show ?thesis using ih by (simp add: is_mode_def)
        qed }
    qed
    with ih show ?thesis by (simp only: unfold)
  qed
qed


lemma is_mode_cong:
  "fArray h' = fArray h \<Longrightarrow> is_mode h' xfirst xlast m = is_mode h xfirst xlast m"
  by (simp add: is_mode_def)

lemma FLT_MAX_pos: "0 < FLT_MAX"
  by (simp add: FLT_MAX_def)

lemma FindPanelThreshold_disabled:
  "runNum > 45000000 \<and> panel > 23 \<Longrightarrow>
   FindPanelThreshold qdcHist threshVal' panel runNum = (9999, qdcHist)"
  by (simp add: FindPanelThreshold_def)

lemma FindPanelThreshold_no_bin:
  "\<not> (runNum > 45000000 \<and> panel > 23) \<Longrightarrow>
   \<forall>k \<in> {1..fNbins qdcHist}. fArray qdcHist k \<le> 1 \<Longrightarrow>
   fst (FindPanelThreshold qdcHist threshVal' panel runNum) = - 1"
proof -
  assume enabled: "\<not> (runNum > 45000000 \<and> panel > 23)"
  assume "\<forall>k \<in> {1..fNbins qdcHist}. fArray qdcHist k \<le> 1"
  then have "\<forall>k. 1 \<le> k \<and> k \<le> fNbins qdcHist \<longrightarrow> fArray qdcHist k \<le> 1" by simp
  then have "FindFirstBinAbove qdcHist 1 = - 1"
    unfolding FindFirstBinAbove_def by (rule first_above_none)
  with enabled show ?thesis by (simp add: FindPanelThreshold_def Let_def)
qed

lemma FindPanelThreshold_mode:
  assumes enabled: "\<not> (runNum > 45000000 \<and> panel > 23)"
    and f: "f \<in> {1..fNbins qdcHist}" "1 < fArray qdcHist f"
    and before: "\<forall>k \<in> {1..<f}. fArray qdcHist k \<le> 1"
  shows "is_mode qdcHist (max (f - 10) 0) (min (f + 50) (fNbins qdcHist + 1))
           (GetMaximumBin (SetRange qdcHist (f - 10) (f + 50)))
         \<and> fst (FindPanelThreshold qdcHist threshVal' panel runNum)
           = double_to_int
               (GetBinCenter qdcHist (GetMaximumBin (SetRange qdcHist (f - 10) (f + 50)))
                + real_of_int threshVal')"
proof -
  let ?h = "SetRange qdcHist (f - 10) (f + 50)"
  let ?w1 = "max (f - 10) 0" and ?w2 = "min (f + 50) (fNbins qdcHist + 1)"
  from f have f1: "1 \<le> f" and f2: "f \<le> fNbins qdcHist" by simp_all
  have "\<forall>k. 1 \<le> k \<and> k < f \<longrightarrow> fArray qdcHist k \<le> 1" using before by simp
  then have first_bin: "FindFirstBinAbove qdcHist 1 = f"
    unfolding FindFirstBinAbove_def using f1 f2 f(2) by (intro first_above_found) simp_all
  have range: "?h = qdcHist\<lparr>fFirst := ?w1, fLast := ?w2, kAxisRange := True\<rparr>"
    using f1 f2 by (simp add: SetRange_def Let_def)
  have same: "fArray ?h = fArray qdcHist" "fNbins ?h = fNbins qdcHist"
    "fXmin ?h = fXmin qdcHist" "fXmax ?h = fXmax qdcHist"
    by (simp_all add: range)
  have bounds: "GetFirst ?h = ?w1" "GetLast ?h = ?w2"
    by (simp_all add: range GetFirst_def GetLast_def)
  have "?w1 \<le> f \<and> f \<le> ?w2 \<and> - FLT_MAX < fArray ?h f"
    using f1 f2 f(2) FLT_MAX_pos by (simp add: same)
  then have "\<exists>k. ?w1 \<le> k \<and> k \<le> ?w2 \<and> - FLT_MAX < fArray ?h k" by blast
  then have "is_mode ?h ?w1 ?w2 (maximum_scan ?w1 ?w2 ?h (- FLT_MAX) 0)"
    using maximum_scan_some [of ?w1 ?w2 "- FLT_MAX" ?h 0] by blast
  then have mode: "is_mode qdcHist ?w1 ?w2 (GetMaximumBin ?h)"
    by (simp add: GetMaximumBin_def bounds is_mode_cong [OF same(1)])
  have centre: "GetBinCenter ?h bin = GetBinCenter qdcHist bin" for bin
    by (simp add: GetBinCenter_def same)
  have "f \<noteq> - 1" using f1 by simp
  then have "fst (FindPanelThreshold qdcHist threshVal' panel runNum)
        = double_to_int (GetBinCenter ?h (GetMaximumBin ?h) + real_of_int threshVal')"
    using enabled by (auto simp: FindPanelThreshold_def Let_def first_bin)
  with mode show ?thesis by (simp only: centre)
qed

lemma double_to_int_ge:
  "1 \<le> t \<Longrightarrow> x \<le> real_of_int (double_to_int (x + real_of_int t))"
proof -
  assume t: "1 \<le> t"
  then have t': "1 \<le> real_of_int t" by simp
  show ?thesis
  proof (cases "0 \<le> x + real_of_int t")
    case True
    then have "double_to_int (x + real_of_int t) = \<lfloor>x + real_of_int t\<rfloor>"
      by (simp only: double_to_int_def if_True)
    moreover have "x + real_of_int t - 1 < real_of_int \<lfloor>x + real_of_int t\<rfloor>"
      by linarith
    ultimately show ?thesis using t' by linarith
  next
    case False
    then have "double_to_int (x + real_of_int t) = \<lceil>x + real_of_int t\<rceil>"
      by (simp only: double_to_int_def if_False)
    moreover have "x + real_of_int t \<le> real_of_int \<lceil>x + real_of_int t\<rceil>"
      by linarith
    ultimately show ?thesis using t' by linarith
  qed
qed

lemma GetBinCenter_unit:
  "fXmin h = 0 \<Longrightarrow> fXmax h = real_of_int (fNbins h) \<Longrightarrow> 1 \<le> fNbins h \<Longrightarrow>
   GetBinCenter h bin = real_of_int bin - 1 / 2"
  by (simp add: GetBinCenter_def Let_def)

lemma double_to_int_half:
  "0 \<le> m \<Longrightarrow> 1 \<le> t \<Longrightarrow>
   double_to_int (real_of_int m - 1 / 2 + real_of_int t) = m - 1 + t"
proof -
  assume "0 \<le> m" "1 \<le> t"
  then have pos: "0 \<le> real_of_int m - 1 / 2 + real_of_int t" by simp
  have "real_of_int m - 1 / 2 + real_of_int t = real_of_int (m - 1 + t) + 1 / 2" by simp
  then have "\<lfloor>real_of_int m - 1 / 2 + real_of_int t\<rfloor> = m - 1 + t"
    by (simp only: floor_eq_iff) simp
  with pos show ?thesis by (simp add: double_to_int_def)
qed


text \<open>
  The histogram of a channel whose amplitude was 50 in two events: only bin 51,
  which counts the amplitudes from 50 up to 51, is not empty.
\<close>

lemma two_fills:
  "fNbins (Fill (Fill hLowQDC 50) 50) = 500"
  "fXmin (Fill (Fill hLowQDC 50) 50) = 0"
  "fXmax (Fill (Fill hLowQDC 50) 50) = 500"
  "fArray (Fill (Fill hLowQDC 50) 50) k = (if k = 51 then 2 else 0)"
  by (simp_all add: Fill_def FindBin_def hLowQDC_def TH1D_new_def Let_def)

lemma two_fills_mode:
  "is_mode (Fill (Fill hLowQDC 50) 50) 41 101 m \<Longrightarrow> m = 51"
proof -
  assume "is_mode (Fill (Fill hLowQDC 50) 50) 41 101 m"
  then have "\<forall>k \<in> {41..101}. fArray (Fill (Fill hLowQDC 50) 50) k
                \<le> fArray (Fill (Fill hLowQDC 50) 50) m"
    by (simp add: is_mode_def)
  then have "fArray (Fill (Fill hLowQDC 50) 50) 51 \<le> fArray (Fill (Fill hLowQDC 50) 50) m"
    by simp
  then show "m = 51" by (simp add: two_fills split: if_splits)
qed

lemma first_bin_above_exists:
  assumes "\<not> (\<forall>k \<in> {1..fNbins h}. fArray h k \<le> 1)"
  shows "\<exists>f. f \<in> {1..fNbins h} \<and> 1 < fArray h f \<and> (\<forall>k \<in> {1..<f}. fArray h k \<le> 1)"
proof -
  define above where "above j = (1 \<le> int j \<and> int j \<le> fNbins h \<and> 1 < fArray h (int j))" for j
  from assms obtain k where k: "1 \<le> k" "k \<le> fNbins h" "1 < fArray h k"
    by (auto simp: not_le)
  then have "above (nat k)" by (simp add: above_def)
  then have "\<exists>j. above j \<and> (\<forall>i < j. \<not> above i)"
    using exists_least_iff [of above] by blast
  then obtain j where j: "above j" "\<forall>i < j. \<not> above i" by blast
  have "fArray h k' \<le> 1" if "k' \<in> {1..<int j}" for k'
  proof -
    from that have "nat k' < j" "1 \<le> k'" "int (nat k') = k'" by auto
    moreover from that j(1) have "k' \<le> fNbins h" by (simp add: above_def)
    ultimately have "\<not> 1 < fArray h k'" using j(2) by (auto simp: above_def)
    then show ?thesis by (simp add: not_less)
  qed
  with j(1) show ?thesis by (intro exI [of _ "int j"]) (simp add: above_def)
qed

text \<open>
  With bins of width 1 that start at 0, bin \<open>m\<close> counts the amplitudes from
  \<open>m - 1\<close> up to \<open>m\<close>: the integer amplitude \<open>m - 1\<close> is filled into bin \<open>m\<close>.
\<close>

lemma FindBin_unit:
  assumes "fXmin h = 0" and "fXmax h = real_of_int (fNbins h)" and "m \<in> {1..fNbins h}"
  shows "FindBin h (real_of_int (m - 1)) = m"
proof -
  from assms(3) have m: "1 \<le> m" "m \<le> fNbins h" by simp_all
  then have n: "real_of_int (fNbins h) \<noteq> 0" by simp
  have inside: "\<not> real_of_int (m - 1) < fXmin h" "real_of_int (m - 1) < fXmax h"
    using m assms(1,2) by simp_all
  have "real_of_int (fNbins h) * (real_of_int (m - 1) - fXmin h) / (fXmax h - fXmin h)
        = real_of_int (m - 1)"
    using n assms(1,2) by simp
  then have "\<lfloor>real_of_int (fNbins h) * (real_of_int (m - 1) - fXmin h) / (fXmax h - fXmin h)\<rfloor>
        = m - 1"
    by (simp only: floor_of_int)
  with inside show ?thesis by (simp only: FindBin_def if_False if_True not_not) simp
qed

text \<open>
  Claim C6. For every channel amplitude histogram (bins of width 1 that start at
  0, as VetoThreshFinder makes them), every channel and every run, with the
  margin 35 that VetoThreshFinder passes: if the run is above 45000000 and the
  channel above 23, FindPanelThreshold returns 9999; otherwise, if no bin from 1
  to \<open>fNbins\<close> has a count above 1, it returns -1; otherwise there is a first bin
  \<open>f\<close> whose count is above 1, and with \<open>m\<close> the first highest-count bin of the
  bins \<open>f - 10\<close> to \<open>f + 50\<close> (not below bin 0 and not above bin \<open>fNbins + 1\<close>) it
  returns the position \<open>m - 1\<close> of that bin plus exactly 35, which is not below
  the position. The position \<open>m - 1\<close> of bin \<open>m\<close> is the amplitude that the bin
  counts. The first two cases hold for every histogram.
\<close>

theorem FindPanelThreshold_threshold:
  "(runNum > 45000000 \<and> panel > 23 \<longrightarrow>
      fst (FindPanelThreshold h threshVal panel runNum) = 9999)
   \<and> (\<not> (runNum > 45000000 \<and> panel > 23) \<and> (\<forall>k \<in> {1..fNbins h}. fArray h k \<le> 1) \<longrightarrow>
      fst (FindPanelThreshold h threshVal panel runNum) = - 1)
   \<and> (\<not> (runNum > 45000000 \<and> panel > 23) \<and> \<not> (\<forall>k \<in> {1..fNbins h}. fArray h k \<le> 1)
        \<and> fXmin h = 0 \<and> fXmax h = real_of_int (fNbins h) \<longrightarrow>
      (\<exists>f m. f \<in> {1..fNbins h} \<and> 1 < fArray h f \<and> (\<forall>k \<in> {1..<f}. fArray h k \<le> 1)
         \<and> is_mode h (max (f - 10) 0) (min (f + 50) (fNbins h + 1)) m
         \<and> fst (FindPanelThreshold h threshVal panel runNum) = (m - 1) + 35
         \<and> m - 1 \<le> fst (FindPanelThreshold h threshVal panel runNum)
         \<and> (m \<in> {1..fNbins h} \<longrightarrow> FindBin h (real_of_int (m - 1)) = m)))"
proof (intro conjI impI)
  assume "runNum > 45000000 \<and> panel > 23"
  then show "fst (FindPanelThreshold h threshVal panel runNum) = 9999"
    by (simp add: FindPanelThreshold_disabled)
next
  assume "\<not> (runNum > 45000000 \<and> panel > 23) \<and> (\<forall>k \<in> {1..fNbins h}. fArray h k \<le> 1)"
  then show "fst (FindPanelThreshold h threshVal panel runNum) = - 1"
    using FindPanelThreshold_no_bin [of runNum panel h threshVal] by blast
next
  assume a: "\<not> (runNum > 45000000 \<and> panel > 23) \<and> \<not> (\<forall>k \<in> {1..fNbins h}. fArray h k \<le> 1)
        \<and> fXmin h = 0 \<and> fXmax h = real_of_int (fNbins h)"
  then obtain f where f: "f \<in> {1..fNbins h}" "1 < fArray h f"
    "\<forall>k \<in> {1..<f}. fArray h k \<le> 1"
    using first_bin_above_exists [of h] by blast
  let ?m = "GetMaximumBin (SetRange h (f - 10) (f + 50))"
  let ?r = "fst (FindPanelThreshold h threshVal panel runNum)"
  have mode: "is_mode h (max (f - 10) 0) (min (f + 50) (fNbins h + 1)) ?m"
    and result: "?r = double_to_int (GetBinCenter h ?m + real_of_int threshVal)"
    using FindPanelThreshold_mode [of runNum panel f h threshVal] a f by blast+
  have m0: "0 \<le> ?m" using mode by (simp add: is_mode_def)
  have nbins: "1 \<le> fNbins h" using f(1) by simp
  have margin: "(1::int) \<le> threshVal" "threshVal = 35" by (simp_all add: threshVal_def)
  have c: "GetBinCenter h ?m = real_of_int ?m - 1 / 2"
    using a nbins by (intro GetBinCenter_unit) simp_all
  have "?r = ?m - 1 + threshVal"
    using double_to_int_half [OF m0 margin(1)] by (simp only: result c)
  then have r: "?r = (?m - 1) + 35" by (simp only: margin(2))
  then have above: "?m - 1 \<le> ?r" by simp
  have counts: "FindBin h (real_of_int (?m - 1)) = ?m" if "?m \<in> {1..fNbins h}"
    using a that by (intro FindBin_unit) simp_all
  show "\<exists>f m. f \<in> {1..fNbins h} \<and> 1 < fArray h f \<and> (\<forall>k \<in> {1..<f}. fArray h k \<le> 1)
         \<and> is_mode h (max (f - 10) 0) (min (f + 50) (fNbins h + 1)) m
         \<and> ?r = (m - 1) + 35
         \<and> m - 1 \<le> ?r
         \<and> (m \<in> {1..fNbins h} \<longrightarrow> FindBin h (real_of_int (m - 1)) = m)"
    using f mode r above counts by (intro exI [of _ f] exI [of _ ?m]) blast
qed

theorem FindPanelThreshold_threshold_witness:
  "fst (FindPanelThreshold hLowQDC threshVal 24 45000001) = 9999
   \<and> fst (FindPanelThreshold hLowQDC threshVal 0 1) = - 1
   \<and> fst (FindPanelThreshold (Fill (Fill hLowQDC 50) 50) threshVal 0 1) = 50 + 35
   \<and> FindBin (Fill (Fill hLowQDC 50) 50) 50 = 51"
proof -
  let ?h = "Fill (Fill hLowQDC 50) 50"
  have disabled: "fst (FindPanelThreshold hLowQDC threshVal 24 45000001) = 9999"
    using FindPanelThreshold_threshold [of 45000001 24 hLowQDC] by simp
  have empty: "fst (FindPanelThreshold hLowQDC threshVal 0 1) = - 1"
    using FindPanelThreshold_threshold [of 1 0 hLowQDC]
    by (simp add: hLowQDC_def TH1D_new_def)
  have premise: "\<not> ((1::int) > 45000000 \<and> (0::int) > 23)
        \<and> \<not> (\<forall>k \<in> {1..fNbins ?h}. fArray ?h k \<le> 1)
        \<and> fXmin ?h = 0 \<and> fXmax ?h = real_of_int (fNbins ?h)"
    by (simp add: two_fills)
  have "\<exists>f m. f \<in> {1..fNbins ?h} \<and> 1 < fArray ?h f \<and> (\<forall>k \<in> {1..<f}. fArray ?h k \<le> 1)
         \<and> is_mode ?h (max (f - 10) 0) (min (f + 50) (fNbins ?h + 1)) m
         \<and> fst (FindPanelThreshold ?h threshVal 0 1) = (m - 1) + 35
         \<and> m - 1 \<le> fst (FindPanelThreshold ?h threshVal 0 1)
         \<and> (m \<in> {1..fNbins ?h} \<longrightarrow> FindBin ?h (real_of_int (m - 1)) = m)"
    using FindPanelThreshold_threshold [of 1 0 ?h] premise by blast
  then obtain f m where f: "1 < fArray ?h f"
    and m: "is_mode ?h (max (f - 10) 0) (min (f + 50) (fNbins ?h + 1)) m"
    and r: "fst (FindPanelThreshold ?h threshVal 0 1) = (m - 1) + 35"
    and counts: "m \<in> {1..fNbins ?h} \<longrightarrow> FindBin ?h (real_of_int (m - 1)) = m"
    by blast
  from f have "f = 51" by (simp add: two_fills split: if_splits)
  with m have "is_mode ?h 41 101 m" by (simp add: two_fills)
  then have m51: "m = 51" by (rule two_fills_mode)
  with r have "fst (FindPanelThreshold ?h threshVal 0 1) = 50 + 35" by simp
  moreover from m51 counts have "FindBin ?h 50 = 51" by (simp add: two_fills)
  ultimately show ?thesis using disabled empty by simp
qed


text \<open>
  A channel whose amplitude was the integer \<open>a\<close> in two events and that has no
  other entry: the threshold is \<open>a + 35\<close>.
\<close>

lemma FindPanelThreshold_single_amplitude:
  assumes "0 \<le> a" and "a < 500"
  shows "fst (FindPanelThreshold (Fill (Fill hLowQDC (real_of_int a)) (real_of_int a))
           threshVal 0 1) = a + 35"
proof -
  let ?h = "Fill (Fill hLowQDC (real_of_int a)) (real_of_int a)"
  have bin: "FindBin h (real_of_int a) = a + 1"
    if "fNbins h = 500" "fXmin h = 0" "fXmax h = 500" for h
    using FindBin_unit [of h "a + 1"] that assms by simp
  have first_fill: "fNbins (Fill hLowQDC (real_of_int a)) = 500"
    "fXmin (Fill hLowQDC (real_of_int a)) = 0" "fXmax (Fill hLowQDC (real_of_int a)) = 500"
    by (simp_all add: Fill_def Let_def hLowQDC_def TH1D_new_def)
  have bin0: "FindBin hLowQDC (real_of_int a) = a + 1"
    by (rule bin) (simp_all add: hLowQDC_def TH1D_new_def)
  have bin1: "FindBin (Fill hLowQDC (real_of_int a)) (real_of_int a) = a + 1"
    by (rule bin) (rule first_fill)+
  have shape: "fNbins ?h = 500" "fXmin ?h = 0" "fXmax ?h = 500"
    by (simp_all add: Fill_def Let_def hLowQDC_def TH1D_new_def)
  have content: "fArray ?h k = (if k = a + 1 then 2 else 0)" for k
    unfolding Fill_def [of "Fill hLowQDC (real_of_int a)"] Let_def bin1
    unfolding Fill_def [of hLowQDC] Let_def bin0
    by (simp add: hLowQDC_def TH1D_new_def)
  let ?m = "GetMaximumBin (SetRange ?h (a + 1 - 10) (a + 1 + 50))"
  have "is_mode ?h (max (a + 1 - 10) 0) (min (a + 1 + 50) (fNbins ?h + 1)) ?m
        \<and> fst (FindPanelThreshold ?h threshVal 0 1)
          = double_to_int (GetBinCenter ?h ?m + real_of_int threshVal)"
    using assms by (intro FindPanelThreshold_mode) (simp_all add: shape content)
  then have mode: "is_mode ?h (max (a + 1 - 10) 0) (min (a + 1 + 50) (fNbins ?h + 1)) ?m"
    and result: "fst (FindPanelThreshold ?h threshVal 0 1)
          = double_to_int (GetBinCenter ?h ?m + real_of_int threshVal)"
    by blast+
  have "a + 1 \<in> {max (a + 1 - 10) 0..min (a + 1 + 50) (fNbins ?h + 1)}"
    using assms by (simp add: shape)
  then have "fArray ?h (a + 1) \<le> fArray ?h ?m"
    using mode unfolding is_mode_def by blast
  then have m: "?m = a + 1" by (simp add: content split: if_splits)
  have "GetBinCenter ?h ?m = real_of_int ?m - 1 / 2"
    by (intro GetBinCenter_unit) (simp_all add: shape)
  then have "fst (FindPanelThreshold ?h threshVal 0 1)
             = double_to_int (real_of_int (a + 1) - 1 / 2 + real_of_int threshVal)"
    by (simp only: result m)
  also have "\<dots> = (a + 1) - 1 + threshVal"
    using assms by (intro double_to_int_half) (simp_all add: threshVal_def)
  finally show ?thesis by (simp add: threshVal_def)
qed


section \<open>The short-run adjustment of the LED period\<close>

text \<open>
  Claim C7 as stated fails: with exactly 3 events above the simple threshold the
  period is not recomputed (here it would be 30 / 3) but set to 9999, and the
  flag is raised.
\<close>

theorem short_run_adjust_three_counterexample:
  "(9::real) < 10 \<and> (3::int) \<le> 3
   \<and> LEDperiod (short_run_adjust 1000 3 30
        \<lparr>LEDperiod = 10, badLEDFreq = False,
         ErrorCount = replicate 29 0, EventError = replicate 29 0\<rparr>) \<noteq> 30 / real_of_int 3
   \<and> badLEDFreq (short_run_adjust 1000 3 30
        \<lparr>LEDperiod = 10, badLEDFreq = False,
         ErrorCount = replicate 29 0, EventError = replicate 29 0\<rparr>)"
  by (simp add: short_run_adjust_def Let_def)

text \<open>
  Claim C7, amended. For every run whose LED period is above 9 seconds or that
  has fewer than 100 entries: if more than 3 events are above the simple
  threshold, the period becomes the duration divided by their number; otherwise
  the period becomes 9999, the flag \<open>badLEDFreq\<close> is raised, and slot 25 of the
  run's error vector is set and counted.
\<close>

theorem short_run_adjust_short:
  "LEDperiod s > 9 \<or> vEntries < 100 \<Longrightarrow>
   length (EventError s) = 29 \<Longrightarrow> length (ErrorCount s) = 29 \<Longrightarrow>
   (simpleLEDCount > 3 \<longrightarrow>
      LEDperiod (short_run_adjust vEntries simpleLEDCount duration s)
        = duration / real_of_int simpleLEDCount)
   \<and> (\<not> simpleLEDCount > 3 \<longrightarrow>
      LEDperiod (short_run_adjust vEntries simpleLEDCount duration s) = 9999
      \<and> badLEDFreq (short_run_adjust vEntries simpleLEDCount duration s)
      \<and> EventError (short_run_adjust vEntries simpleLEDCount duration s) ! 25 = 1
      \<and> ErrorCount (short_run_adjust vEntries simpleLEDCount duration s) ! 25
          = ErrorCount s ! 25 + 1)"
  by (simp add: short_run_adjust_def Let_def)

theorem short_run_adjust_short_witness:
  "(9::real) < 10 \<and> (3::int) < 4
   \<and> LEDperiod (short_run_adjust 1000 4 30
        \<lparr>LEDperiod = 10, badLEDFreq = False,
         ErrorCount = replicate 29 0, EventError = replicate 29 0\<rparr>) = 30 / 4
   \<and> LEDperiod (short_run_adjust 50 2 30
        \<lparr>LEDperiod = 2, badLEDFreq = False,
         ErrorCount = replicate 29 0, EventError = replicate 29 0\<rparr>) = 9999"
  using short_run_adjust_short [of "\<lparr>LEDperiod = 10, badLEDFreq = False,
         ErrorCount = replicate 29 0, EventError = replicate 29 0\<rparr>" 1000 4 30]
    short_run_adjust_short [of "\<lparr>LEDperiod = 2, badLEDFreq = False,
         ErrorCount = replicate 29 0, EventError = replicate 29 0\<rparr>" 50 2 30]
  by simp


section \<open>The energy cut\<close>

lemma over500_set_step:
  "q < 32 \<Longrightarrow>
   {k. q \<le> k \<and> k < (32::nat) \<and> P k}
     = (if P q then insert q {k. q + 1 \<le> k \<and> k < 32 \<and> P k}
        else {k. q + 1 \<le> k \<and> k < 32 \<and> P k})"
proof -
  assume "q < 32"
  have "(q \<le> k) = (k = q \<or> q + 1 \<le> k)" for k by arith
  then show ?thesis using \<open>q < 32\<close> by auto
qed

lemma over500_loop_eq:
  "over500_loop q veto over500Count
     = over500Count + int (card {k. q \<le> k \<and> k < 32 \<and> 500 < GetQDC veto k})"
proof (induction q veto over500Count rule: over500_loop.induct)
  case (1 q veto over500Count)
  let ?S = "\<lambda>q. {k. q \<le> k \<and> k < 32 \<and> 500 < GetQDC veto k}"
  show ?case
  proof (cases "q < 32")
    case True
    have fin: "finite (?S (q + 1))" by simp
    have notin: "q \<notin> ?S (q + 1)" by simp
    have step: "?S q = (if 500 < GetQDC veto q then insert q (?S (q + 1)) else ?S (q + 1))"
      using True by (rule over500_set_step)
    have "over500_loop q veto over500Count =
          over500_loop (q + 1) veto
            (if 500 < GetQDC veto q then over500Count + 1 else over500Count)"
      using True by (simp add: over500_loop.simps [of q])
    also have "\<dots> = (if 500 < GetQDC veto q then over500Count + 1 else over500Count)
                     + int (card (?S (q + 1)))"
      using "1.IH" [OF True] by simp
    also have "\<dots> = over500Count + int (card (?S q))"
    proof (cases "500 < GetQDC veto q")
      case True
      then have "?S q = insert q (?S (q + 1))"
        using step by (simp only: if_True)
      then have "card (?S q) = Suc (card (?S (q + 1)))"
        using card_insert_disjoint [OF fin notin] by (simp only:)
      with True show ?thesis by simp
    next
      case False
      then have "?S q = ?S (q + 1)" using step by (simp only: if_False)
      with False show ?thesis by simp
    qed
    finally show ?thesis .
  next
    case False
    then have "?S q = {}" by auto
    with False show ?thesis by (simp add: over500_loop.simps [of q])
  qed
qed

text \<open>
  Claim C9. The energy cut of an event is true exactly when at least two of its
  32 channels have an amplitude above 500, and it does not depend on the
  thresholds of the channels.
\<close>

theorem energy_cut_iff:
  "energy_cut veto = (2 \<le> card {q. q < 32 \<and> 500 < GetQDC veto q})
   \<and> energy_cut (veto\<lparr>GetSWThresh := thresh\<rparr>) = energy_cut veto"
proof -
  have "energy_cut v = (2 \<le> card {q. q < 32 \<and> 500 < GetQDC v q})" for v
    by (simp add: energy_cut_def over500_loop_eq)
  then show ?thesis by simp
qed

theorem energy_cut_iff_witness:
  "energy_cut (blank_event\<lparr>GetQDC := (\<lambda>q. if q = 3 \<or> q = 20 then 600 else 40)\<rparr>)
   \<and> \<not> energy_cut (blank_event\<lparr>GetQDC := (\<lambda>q. if q = 3 then 600 else 500)\<rparr>)"
proof -
  have two: "{q. q < 32 \<and> 500 < (if q = 3 \<or> q = 20 then 600 else (40::int))} = {3, 20::nat}"
    by auto
  have one: "{q. q < 32 \<and> 500 < (if q = 3 then 600 else (500::int))} = {3::nat}"
    by auto
  show ?thesis
    using energy_cut_iff [of "blank_event\<lparr>GetQDC := (\<lambda>q. if q = 3 \<or> q = 20 then 600 else 40)\<rparr>"]
      energy_cut_iff [of "blank_event\<lparr>GetQDC := (\<lambda>q. if q = 3 then 600 else 500)\<rparr>"]
    by (simp add: two one)
qed


section \<open>PanelMap covers the 32 channels\<close>

lemma channel_cases:
  "0 \<le> i \<Longrightarrow> i \<le> 31 \<Longrightarrow>
   i \<in> {0, 1, 2, 3, 4, 5, 6, 7, 8, 9, 10, 11, 12, 13, 14, 15, 16, 17, 18, 19, 20,
          21, 22, 23, 24, 25, 26, 27, 28, 29, 30, 31 :: int}"
  by simp presburger

lemma PanelMap_channel:
  "0 \<le> i \<Longrightarrow> i \<le> 31 \<Longrightarrow> 0 \<le> PanelMap i runNum \<and> PanelMap i runNum \<le> 11"
proof -
  assume "0 \<le> i" "i \<le> 31"
  then have "i \<in> {0, 1, 2, 3, 4, 5, 6, 7, 8, 9, 10, 11, 12, 13, 14, 15, 16, 17, 18, 19, 20,
          21, 22, 23, 24, 25, 26, 27, 28, 29, 30, 31 :: int}"
    by (rule channel_cases)
  then show ?thesis
    by (elim insertE emptyE) (simp_all add: PanelMap_def)
qed

lemma PanelMap_outside: "i < 0 \<or> 31 < i \<Longrightarrow> PanelMap i runNum = - 1"
  by (auto simp: PanelMap_def)

text \<open>
  Claim C10. For every channel index from 0 to 31, PanelMap returns a plane index
  from 0 to 11, and it returns -1 only for an index outside 0 to 31.
\<close>

theorem PanelMap_range:
  "(0 \<le> i \<and> i \<le> 31 \<longrightarrow> 0 \<le> PanelMap i runNum \<and> PanelMap i runNum \<le> 11)
   \<and> (PanelMap i runNum = - 1) = (i < 0 \<or> 31 < i)"
proof -
  have "PanelMap i runNum \<noteq> - 1" if "0 \<le> i" "i \<le> 31"
    using PanelMap_channel [OF that, of runNum] by simp
  then have "(PanelMap i runNum = - 1) = (i < 0 \<or> 31 < i)"
    using PanelMap_outside [of i runNum] by (cases "i < 0 \<or> 31 < i") auto
  then show ?thesis using PanelMap_channel [of i runNum] by blast
qed

theorem PanelMap_range_witness:
  "(0::int) \<le> 22 \<and> (22::int) \<le> 31 \<and> 0 \<le> PanelMap 22 0 \<and> PanelMap 22 0 \<le> 11
   \<and> PanelMap 22 0 \<noteq> - 1 \<and> PanelMap 32 0 = - 1"
  using PanelMap_range [of 22 0] PanelMap_range [of 32 0] by simp


end
